theory Spec2Isabelle
  imports Complex_Main "HOL-Library.Word"
begin

section \<open>Font atlas generator: the model\<close>

text \<open>
  A shallow embedding of \<^verbatim>\<open>tools/fonts/generate_atlas.py\<close>. Python's unbounded integers
  are \<^typ>\<open>int\<close>; the float \<^verbatim>\<open>scale\<close> is an exact \<^typ>\<open>real\<close> (the quotient and the
  products are taken without rounding error); every exception is a value of \<open>error\<close>.
  Pillow (fonts, text drawing, image files) is outside the repository: a font is a
  parameter that says, for each character, either which error the rasterizer raises or
  which bounding box and ink the character has.
\<close>

subsection \<open>Errors and Python builtins\<close>

text \<open>
  \<open>ZeroDivisionError\<close> and \<open>ValueError\<close> are raised by Python and by
  \<^verbatim>\<open>Image.new\<close>; the other three are raised only by the external parameters (the
  rasterizer, the font loader, the file system). The source has no \<^verbatim>\<open>try\<close> and no
  \<^verbatim>\<open>raise\<close>: every error propagates unchanged.
\<close>

datatype error =
    ZeroDivisionError
  | ValueError
  | UnsupportedGlyph int
  | FontLoadFailure
  | OSError

text \<open>\<^verbatim>\<open>int(x)\<close> on a float truncates toward zero.\<close>

definition py_int :: "real \<Rightarrow> int" where
  "py_int x = (if 0 \<le> x then \<lfloor>x\<rfloor> else \<lceil>x\<rceil>)"

text \<open>\<^verbatim>\<open>chr(cp)\<close> raises \<^verbatim>\<open>ValueError\<close> outside \<^verbatim>\<open>range(0x110000)\<close>; a character is
  represented by its code point.\<close>

definition chr :: "int \<Rightarrow> error + int" where
  "chr cp = (if 0 \<le> cp \<and> cp < 0x110000 then Inr cp else Inl ValueError)"

text \<open>\<^verbatim>\<open>str(cp)\<close>: the decimal numeral of an integer.\<close>

fun digits :: "nat \<Rightarrow> string" where
  "digits n = (if n < 10 then [char_of (48 + n)]
               else digits (n div 10) @ [char_of (48 + n mod 10)])"

declare digits.simps [simp del]

definition str :: "int \<Rightarrow> string" where
  "str i = (if i < 0 then CHR ''-'' # digits (nat (- i)) else digits (nat i))"

subsection \<open>Fonts and images\<close>

text \<open>
  What Pillow reports for one character drawn at the origin: \<open>bbox\<close> is the tuple
  \<^verbatim>\<open>(left, top, right, bottom)\<close> of \<^verbatim>\<open>textbbox((0, 0), char, font)\<close>, and \<open>ink\<close> lists the
  pixels that \<^verbatim>\<open>draw.text\<close> touches, as offsets from the drawing position, each with its
  mask value. \<open>blend old m\<close> is the value \<^verbatim>\<open>draw.text(..., fill=255)\<close> leaves in a pixel
  that held \<open>old\<close> and is touched with mask value \<open>m\<close>.
\<close>

record glyph =
  bbox :: "int \<times> int \<times> int \<times> int"
  ink :: "((int \<times> int) \<times> 8 word) list"

record font =
  render :: "int \<Rightarrow> error + glyph"
  blend :: "8 word \<Rightarrow> 8 word \<Rightarrow> 8 word"

text \<open>An image has a size and a pixel store; only coordinates inside the size are ever
  read or written.\<close>

record 'p image =
  width :: nat
  height :: nat
  pixels :: "nat \<times> nat \<Rightarrow> 'p"

definition blank :: "nat \<Rightarrow> nat \<Rightarrow> 'p \<Rightarrow> 'p image" where
  "blank w h fill = \<lparr> width = w, height = h, pixels = (\<lambda>_. fill) \<rparr>"

text \<open>\<^verbatim>\<open>Image.new(mode, size, fill)\<close> raises \<^verbatim>\<open>ValueError\<close> on a negative width or
  height.\<close>

definition image_new :: "int \<times> int \<Rightarrow> 'p \<Rightarrow> error + 'p image" where
  "image_new sz fill =
     (if fst sz < 0 \<or> snd sz < 0 then Inl ValueError
      else Inr (blank (nat (fst sz)) (nat (snd sz)) fill))"

definition putpixel :: "'p image \<Rightarrow> nat \<times> nat \<Rightarrow> 'p \<Rightarrow> 'p image" where
  "putpixel img xy v = img \<lparr> pixels := (pixels img)(xy := v) \<rparr>"

definition textbbox :: "font \<Rightarrow> int \<Rightarrow> error + int \<times> int \<times> int \<times> int" where
  "textbbox F ch = (case render F ch of Inl e \<Rightarrow> Inl e | Inr g \<Rightarrow> Inr (bbox g))"

text \<open>\<^verbatim>\<open>draw.text(xy, char, font, fill=255)\<close>: every ink pixel that falls inside the image
  is blended in; the rest is clipped by the image, not by the cell.\<close>

fun draw_pixel ::
  "font \<Rightarrow> int \<times> int \<Rightarrow> (int \<times> int) \<times> 8 word \<Rightarrow> 8 word image \<Rightarrow> 8 word image" where
  "draw_pixel F (x, y) ((dx, dy), m) img =
     (if 0 \<le> x + dx \<and> x + dx < int (width img) \<and> 0 \<le> y + dy \<and> y + dy < int (height img)
      then putpixel img (nat (x + dx), nat (y + dy))
             (blend F (pixels img (nat (x + dx), nat (y + dy))) m)
      else img)"

definition draw_text ::
  "font \<Rightarrow> 8 word image \<Rightarrow> int \<times> int \<Rightarrow> int \<Rightarrow> error + 8 word image" where
  "draw_text F img xy ch =
     (case render F ch of Inl e \<Rightarrow> Inl e
      | Inr g \<Rightarrow> Inr (fold (draw_pixel F xy) (ink g) img))"

subsection \<open>\<^verbatim>\<open>measure_font\<close>\<close>

text \<open>The body of the \<^verbatim>\<open>for cp in codepoints\<close> loop, with the three running maxima as
  the state. The dummy image of the source is never read.\<close>

fun measure_loop ::
  "font \<Rightarrow> int list \<Rightarrow> int \<times> int \<times> int \<Rightarrow> error + int \<times> int \<times> int" where
  "measure_loop F [] acc = Inr acc"
| "measure_loop F (cp # cps) (max_width, max_above, max_below) =
     (case chr cp of Inl e \<Rightarrow> Inl e
      | Inr ch \<Rightarrow>
         (case textbbox F ch of Inl e \<Rightarrow> Inl e
          | Inr (x0, y0, x1, y1) \<Rightarrow>
              (let w = x1 - x0; above = - y0; below = y1
               in measure_loop F cps
                    (max max_width w, max max_above above, max max_below below))))"

definition measure_font :: "font \<Rightarrow> int list \<Rightarrow> error + int \<times> int \<times> int" where
  "measure_font F codepoints = measure_loop F codepoints (0, 0, 0)"

subsection \<open>\<^verbatim>\<open>calculate_dimensions\<close>\<close>

text \<open>The returned 5-tuple, with the names of the docstring. The maxima are integers,
  so the two \<^verbatim>\<open>int(...)\<close> conversions of \<^verbatim>\<open>natural_height\<close> and \<^verbatim>\<open>natural_baseline\<close>
  change nothing. The division raises \<^verbatim>\<open>ZeroDivisionError\<close> on a zero divisor.\<close>

record dimensions =
  font_size :: int
  glyph_width :: int
  glyph_height :: int
  baseline_offset :: int
  scale :: real

definition calculate_dimensions ::
  "int \<Rightarrow> int \<Rightarrow> int \<Rightarrow> int \<Rightarrow> int \<Rightarrow> error + dimensions" where
  "calculate_dimensions max_width max_above max_below target_size_px base_font_size =
     (let natural_height = max_above + max_below;
          natural_baseline = max_above
      in if max max_width natural_height = 0 then Inl ZeroDivisionError
         else
           (let scale = of_int target_size_px / of_int (max max_width natural_height)
            in Inr \<lparr> font_size = py_int (of_int base_font_size * scale),
                      glyph_width = py_int (of_int max_width * scale),
                      glyph_height = py_int (of_int natural_height * scale),
                      baseline_offset = py_int (of_int natural_baseline * scale),
                      scale = scale \<rparr>))"

subsection \<open>\<^verbatim>\<open>create_atlas\<close>\<close>

text \<open>The metadata dictionary, keyed by \<^verbatim>\<open>str(cp)\<close>; a later assignment to the same key
  replaces the earlier one.\<close>

type_synonym glyph_index = "string \<rightharpoonup> int \<times> int"

text \<open>The body of \<^verbatim>\<open>for i, cp in enumerate(codepoints)\<close>, with the atlas and the
  dictionary as the state. \<^verbatim>\<open>//\<close> and \<^verbatim>\<open>%\<close> round toward minus infinity, as \<open>div\<close> and
  \<open>mod\<close> on \<^typ>\<open>int\<close> do.\<close>

fun atlas_loop ::
  "font \<Rightarrow> int \<Rightarrow> int \<Rightarrow> int \<Rightarrow> int \<Rightarrow> (nat \<times> int) list
    \<Rightarrow> 8 word image \<times> glyph_index \<Rightarrow> error + 8 word image \<times> glyph_index" where
  "atlas_loop F glyph_w glyph_h baseline columns [] st = Inr st"
| "atlas_loop F glyph_w glyph_h baseline columns ((i, cp) # rest) (atlas, metadata) =
     (let row = int i div columns;
          col = int i mod columns;
          cell_x = col * glyph_w;
          cell_y = row * glyph_h
      in (case chr cp of Inl e \<Rightarrow> Inl e
          | Inr ch \<Rightarrow>
             (case textbbox F ch of Inl e \<Rightarrow> Inl e
              | Inr (x0, y0, x1, y1) \<Rightarrow>
                  (let offset_x = - x0;
                       offset_y = cell_y + baseline
                   in (case draw_text F atlas (cell_x + offset_x, offset_y) ch of
                         Inl e \<Rightarrow> Inl e
                       | Inr atlas' \<Rightarrow>
                           atlas_loop F glyph_w glyph_h baseline columns rest
                             (atlas', metadata(str cp \<mapsto> (row, col))))))))"

definition create_atlas ::
  "font \<Rightarrow> int list \<Rightarrow> int \<Rightarrow> int \<Rightarrow> int \<Rightarrow> int \<Rightarrow> error + 8 word image \<times> glyph_index" where
  "create_atlas F codepoints glyph_w glyph_h baseline columns =
     (let glyph_count = int (length codepoints)
      in if columns = 0 then Inl ZeroDivisionError
         else
           (let rows = (glyph_count + columns - 1) div columns;
                atlas_width = columns * glyph_w;
                atlas_height = rows * glyph_h
            in (case image_new (atlas_width, atlas_height) 0 of Inl e \<Rightarrow> Inl e
                | Inr atlas \<Rightarrow>
                    atlas_loop F glyph_w glyph_h baseline columns (enumerate 0 codepoints)
                      (atlas, Map.empty))))"

subsection \<open>\<^verbatim>\<open>convert_to_rgba\<close>\<close>

type_synonym rgba = "8 word \<times> 8 word \<times> 8 word \<times> 8 word"

text \<open>The two double loops over \<^verbatim>\<open>range(height)\<close> and \<^verbatim>\<open>range(width)\<close>. The test is
  \<^verbatim>\<open>style == 'solid'\<close>; every other tag takes the \<^verbatim>\<open>else\<close> branch.\<close>

definition convert_to_rgba :: "8 word image \<Rightarrow> string \<Rightarrow> rgba image" where
  "convert_to_rgba grayscale_image style =
     (let w = width grayscale_image;
          h = height grayscale_image;
          rgba = blank w h (0, 0, 0, 0);
          gray_pixels = pixels grayscale_image
      in if style = ''solid''
         then fold (\<lambda>y. fold (\<lambda>x img.
                 if 0 < gray_pixels (x, y) then putpixel img (x, y) (255, 255, 255, 255)
                 else img) [0..<w]) [0..<h] rgba
         else fold (\<lambda>y. fold (\<lambda>x img.
                 (let gray = gray_pixels (x, y)
                  in if 0 < gray then putpixel img (x, y) (255, 255, 255, gray)
                     else img)) [0..<w]) [0..<h] rgba)"

text \<open>The fourth channel of an RGBA pixel.\<close>

definition alpha :: "rgba \<Rightarrow> 8 word" where
  "alpha p = snd (snd (snd p))"

subsection \<open>\<^verbatim>\<open>generate_atlas\<close>\<close>






definition DEFAULT_COLUMNS :: int where
  "DEFAULT_COLUMNS = 16"







subsection \<open>Cells and ink\<close>

text \<open>
  A glyph fits its cell when every ink pixel, placed as \<open>create_atlas\<close> places it (shifted
  left by the glyph's own left bearing, with the drawing origin \<open>baseline\<close> rows below the
  cell top), lies inside a cell of \<open>glyph_w\<close> by \<open>glyph_h\<close> pixels. The source does not
  test this.
\<close>

definition glyph_fits :: "font \<Rightarrow> int \<Rightarrow> int \<Rightarrow> int \<Rightarrow> int \<Rightarrow> bool" where
  "glyph_fits F glyph_w glyph_h baseline cp =
     (case render F cp of Inl e \<Rightarrow> True
      | Inr g \<Rightarrow>
          (case bbox g of (x0, y0, x1, y1) \<Rightarrow>
             list_all (\<lambda>((dx, dy), m).
                 0 \<le> dx - x0 \<and> dx - x0 < glyph_w \<and> 0 \<le> baseline + dy \<and> baseline + dy < glyph_h)
               (ink g)))"

subsection \<open>Reading a decimal numeral back\<close>

text \<open>The inverse of \<open>digits\<close>, used to show that \<open>str\<close> never gives two integers the same
  key.\<close>

definition digit_val :: "char \<Rightarrow> nat" where
  "digit_val c = of_char c - 48"

definition decode :: "string \<Rightarrow> nat" where
  "decode s = foldl (\<lambda>a c. 10 * a + digit_val c) 0 s"

subsection \<open>Sample inputs\<close>

text \<open>A coverage image two pixels wide and one high: an inked pixel of coverage 200
  and an empty one.\<close>

definition sample_gray :: "8 word image" where
  "sample_gray = \<lparr> width = 2, height = 1, pixels = (\<lambda>_. 0)((0, 0) := 200) \<rparr>"

text \<open>Four fonts: one whose every glyph is a single inked pixel; one whose glyphs are two
  pixels wide; one whose rasterizer rejects code point 66 with an error that names it; and
  one whose rasterizer rejects code point 66 with an error that names nothing.\<close>

definition sample_glyph :: glyph where
  "sample_glyph = \<lparr> bbox = (0, 0, 1, 1), ink = [((0, 0), 255)] \<rparr>"

definition sample_font :: font where
  "sample_font = \<lparr> render = (\<lambda>cp. Inr sample_glyph), blend = (\<lambda>old m. m) \<rparr>"

definition wide_font :: font where
  "wide_font = \<lparr> render = (\<lambda>cp. Inr \<lparr> bbox = (0, 0, 2, 1), ink = [((0, 0), 255), ((1, 0), 255)] \<rparr>),
                  blend = (\<lambda>old m. m) \<rparr>"

definition gappy_font :: font where
  "gappy_font = \<lparr> render = (\<lambda>cp. if cp = 66 then Inl (UnsupportedGlyph 66) else Inr sample_glyph),
                   blend = (\<lambda>old m. m) \<rparr>"

definition broken_font :: font where
  "broken_font = \<lparr> render = (\<lambda>cp. if cp = 66 then Inl OSError else Inr sample_glyph),
                    blend = (\<lambda>old m. m) \<rparr>"



section \<open>Grid geometry\<close>

subsection \<open>Truncation as integer division\<close>


lemma py_int_quot_neg:
  assumes "0 < m" "k < 0"
  shows "py_int (of_int k / of_int m) = - ((- k) div m)"
proof -
  have "of_int k / of_int m < (0::real)" using assms by (simp add: divide_neg_pos)
  moreover have "\<lceil>of_int k / of_int m :: real\<rceil> = - \<lfloor>of_int (- k) / of_int m :: real\<rfloor>"
    by (simp add: ceiling_def)
  ultimately show ?thesis by (simp add: py_int_def floor_divide_of_int_eq del: of_int_minus)
qed









subsection \<open>The scale factor and the scaled cell\<close>



text \<open>The conversion is not rounding to the nearest integer: a width of 1 scaled by
  \<open>5 / 3\<close> gives 1, not 2.\<close>

lemma calculate_dimensions_not_nearest:
  "glyph_width (projr (calculate_dimensions 1 0 3 5 16)) = 1 \<and> round (1 * (5 / 3 :: real)) = 2"
  by (simp add: calculate_dimensions_def Let_def py_int_def round_def)




subsection \<open>Degenerate measurements\<close>




subsection \<open>Cells of at least one pixel\<close>






section \<open>Style conversion\<close>

subsection \<open>The double loop as a pixel-local map\<close>

lemma putpixel_simps [simp]:
  "width (putpixel img xy v) = width img"
  "height (putpixel img xy v) = height img"
  "pixels (putpixel img xy v) = (pixels img)(xy := v)"
  by (simp_all add: putpixel_def)

lemma blank_simps [simp]:
  "width (blank w h fill) = w"
  "height (blank w h fill) = h"
  "pixels (blank w h fill) xy = fill"
  by (simp_all add: blank_def)

lemma row_fold_size:
  "width (fold (\<lambda>x img. if P x then putpixel img (x, y) (v x) else img) xs img) = width img \<and>
   height (fold (\<lambda>x img. if P x then putpixel img (x, y) (v x) else img) xs img) = height img"
  by (induction xs arbitrary: img) simp_all

lemma row_fold_pixels:
  "pixels (fold (\<lambda>x img. if P x then putpixel img (x, y) (v x) else img) xs img) (a, b) =
     (if b = y \<and> a \<in> set xs \<and> P a then v a else pixels img (a, b))"
  by (induction xs arbitrary: img) auto

lemma grid_fold_size:
  "width (fold (\<lambda>y. fold (\<lambda>x img. if P x y then putpixel img (x, y) (v x y) else img) xs) ys img)
     = width img \<and>
   height (fold (\<lambda>y. fold (\<lambda>x img. if P x y then putpixel img (x, y) (v x y) else img) xs) ys img)
     = height img"
  by (induction ys arbitrary: img) (simp_all add: row_fold_size)

lemma grid_fold_pixels:
  "pixels (fold (\<lambda>y. fold (\<lambda>x img. if P x y then putpixel img (x, y) (v x y) else img) xs) ys img)
       (a, b) =
     (if b \<in> set ys \<and> a \<in> set xs \<and> P a b then v a b else pixels img (a, b))"
  by (induction ys arbitrary: img) (auto simp: row_fold_pixels)

lemma convert_solid_size:
  "width (convert_to_rgba g ''solid'') = width g \<and> height (convert_to_rgba g ''solid'') = height g"
  by (simp add: convert_to_rgba_def Let_def grid_fold_size)

lemma convert_solid_pixels:
  "pixels (convert_to_rgba g ''solid'') (x, y) =
     (if x < width g \<and> y < height g \<and> 0 < pixels g (x, y) then (255, 255, 255, 255) else (0, 0, 0, 0))"
  by (simp add: convert_to_rgba_def Let_def grid_fold_pixels)

lemma convert_other_size:
  "style \<noteq> ''solid'' \<Longrightarrow>
   width (convert_to_rgba g style) = width g \<and> height (convert_to_rgba g style) = height g"
  by (simp add: convert_to_rgba_def Let_def grid_fold_size)

lemma convert_other_pixels:
  "style \<noteq> ''solid'' \<Longrightarrow> pixels (convert_to_rgba g style) (x, y) =
     (if x < width g \<and> y < height g \<and> 0 < pixels g (x, y) then (255, 255, 255, pixels g (x, y))
      else (0, 0, 0, 0))"
  by (simp add: convert_to_rgba_def Let_def grid_fold_pixels)

lemma word_not_pos: "\<not> 0 < (w :: 8 word) \<longleftrightarrow> w = 0"
  by (simp add: word_gt_0)

subsection \<open>The two styles\<close>

text \<open>
  Claim C3. For every coverage image, \<open>convert_to_rgba\<close> with style \<open>solid\<close> returns an
  image of the same width and height in which every pixel of positive coverage is
  \<open>(255, 255, 255, 255)\<close> and every pixel of coverage 0 is \<open>(0, 0, 0, 0)\<close>; every
  output alpha is 0 or 255.
\<close>

theorem convert_to_rgba_solid:
  "width (convert_to_rgba g ''solid'') = width g \<and>
   height (convert_to_rgba g ''solid'') = height g \<and>
   (x < width g \<and> y < height g \<longrightarrow>
      (0 < pixels g (x, y) \<longrightarrow>
         pixels (convert_to_rgba g ''solid'') (x, y) = (255, 255, 255, 255)) \<and>
      (pixels g (x, y) = 0 \<longrightarrow>
         pixels (convert_to_rgba g ''solid'') (x, y) = (0, 0, 0, 0)) \<and>
      (alpha (pixels (convert_to_rgba g ''solid'') (x, y)) = 0 \<or>
       alpha (pixels (convert_to_rgba g ''solid'') (x, y)) = 255))"
  by (simp add: convert_solid_size convert_solid_pixels alpha_def)

theorem convert_to_rgba_solid_witness:
  "(0::nat) < width sample_gray \<and> (0::nat) < height sample_gray \<and> 0 < pixels sample_gray (0, 0) \<and>
   pixels (convert_to_rgba sample_gray ''solid'') (0, 0) = (255, 255, 255, 255) \<and>
   (1::nat) < width sample_gray \<and> pixels sample_gray (1, 0) = 0 \<and>
   pixels (convert_to_rgba sample_gray ''solid'') (1, 0) = (0, 0, 0, 0)"
  using convert_to_rgba_solid[of sample_gray 0 0] convert_to_rgba_solid[of sample_gray 1 0]
  by (simp add: sample_gray_def)

text \<open>
  Claim C4. For every coverage image, \<open>convert_to_rgba\<close> with style \<open>smooth\<close> returns an
  image of the same width and height in which every pixel of positive coverage \<open>g\<close> is
  \<open>(255, 255, 255, g)\<close> and every pixel of coverage 0 is \<open>(0, 0, 0, 0)\<close>; the output
  alpha equals the coverage at every pixel, so a pixel of higher coverage never has a
  lower alpha.
\<close>

theorem convert_to_rgba_smooth:
  "width (convert_to_rgba g ''smooth'') = width g \<and>
   height (convert_to_rgba g ''smooth'') = height g \<and>
   (x < width g \<and> y < height g \<longrightarrow>
      (0 < pixels g (x, y) \<longrightarrow>
         pixels (convert_to_rgba g ''smooth'') (x, y) = (255, 255, 255, pixels g (x, y))) \<and>
      (pixels g (x, y) = 0 \<longrightarrow>
         pixels (convert_to_rgba g ''smooth'') (x, y) = (0, 0, 0, 0)) \<and>
      alpha (pixels (convert_to_rgba g ''smooth'') (x, y)) = pixels g (x, y) \<and>
      (x' < width g \<and> y' < height g \<and> pixels g (x, y) \<le> pixels g (x', y') \<longrightarrow>
         alpha (pixels (convert_to_rgba g ''smooth'') (x, y))
           \<le> alpha (pixels (convert_to_rgba g ''smooth'') (x', y'))))"
proof -
  have al: "alpha (pixels (convert_to_rgba g ''smooth'') (a, b)) = pixels g (a, b)"
    if "a < width g" "b < height g" for a b
    using that by (simp add: convert_other_pixels alpha_def word_not_pos)
  have sz: "width (convert_to_rgba g ''smooth'') = width g"
    "height (convert_to_rgba g ''smooth'') = height g"
    by (simp_all add: convert_other_size)
  have p1: "pixels (convert_to_rgba g ''smooth'') (x, y) = (255, 255, 255, pixels g (x, y))"
    if "x < width g" "y < height g" "0 < pixels g (x, y)"
    using that by (simp add: convert_other_pixels)
  have p0: "pixels (convert_to_rgba g ''smooth'') (x, y) = (0, 0, 0, 0)"
    if "pixels g (x, y) = 0"
    using that by (simp add: convert_other_pixels)
  show ?thesis
    using sz p1 p0 al[of x y] al[of x' y'] by simp
qed

theorem convert_to_rgba_smooth_witness:
  "(0::nat) < width sample_gray \<and> (0::nat) < height sample_gray \<and> 0 < pixels sample_gray (0, 0) \<and>
   pixels (convert_to_rgba sample_gray ''smooth'') (0, 0) = (255, 255, 255, 200) \<and>
   (1::nat) < width sample_gray \<and> pixels sample_gray (1, 0) \<le> pixels sample_gray (0, 0) \<and>
   alpha (pixels (convert_to_rgba sample_gray ''smooth'') (1, 0))
     \<le> alpha (pixels (convert_to_rgba sample_gray ''smooth'') (0, 0))"
  using convert_to_rgba_smooth[of sample_gray 0 0 1 0] convert_to_rgba_smooth[of sample_gray 1 0 0 0]
  by (simp add: sample_gray_def alpha_def)

subsection \<open>Unrecognized style tags\<close>

text \<open>
  Claim C5, as stated, has every tag outside \<open>solid\<close> and \<open>smooth\<close> fail. The tag
  \<open>outline\<close> returns the same image as \<open>smooth\<close>.
\<close>

theorem convert_to_rgba_unknown_style_counterexample:
  "convert_to_rgba sample_gray ''outline'' = convert_to_rgba sample_gray ''smooth'' \<and>
   pixels (convert_to_rgba sample_gray ''outline'') (0, 0) = (255, 255, 255, 200)"
  by (simp add: convert_other_pixels) (simp add: sample_gray_def convert_to_rgba_def)

text \<open>
  Claim C5, amended. For every style tag other than \<open>solid\<close>, recognized or not,
  \<open>convert_to_rgba\<close> returns the image of the \<open>smooth\<close> style; it raises no error.
\<close>

theorem convert_to_rgba_other_style:
  "style \<noteq> ''solid'' \<Longrightarrow> convert_to_rgba g style = convert_to_rgba g ''smooth''"
  by (simp add: convert_to_rgba_def)

theorem convert_to_rgba_other_style_witness:
  "''outline'' \<noteq> ''solid'' \<and>
   convert_to_rgba sample_gray ''outline'' = convert_to_rgba sample_gray ''smooth''"
  using convert_to_rgba_other_style[of "''outline''" sample_gray] by simp


section \<open>Keys of the glyph index\<close>

text \<open>\<open>str\<close> is injective: \<open>digits\<close> can be read back, and only a negative number starts
  with a minus sign.\<close>

lemma digit_val_char: "d < 10 \<Longrightarrow> digit_val (char_of (48 + d)) = d"
  by (simp add: digit_val_def)

lemma decode_snoc: "decode (s @ [c]) = 10 * decode s + digit_val c"
  by (simp add: decode_def)

lemma decode_digits: "decode (digits n) = n"
proof (induction n rule: digits.induct)
  case (1 n)
  show ?case
  proof (cases "n < 10")
    case True
    then show ?thesis by (subst digits.simps) (simp add: decode_def digit_val_char)
  next
    case False
    then have "decode (digits (n div 10)) = n div 10" using 1 by simp
    then show ?thesis using False
      by (subst digits.simps) (simp add: decode_snoc digit_val_char)
  qed
qed

lemma digits_nonempty: "digits n \<noteq> []"
  by (subst digits.simps) simp

lemma hd_digits: "hd (digits n) \<noteq> CHR ''-''"
proof (induction n rule: digits.induct)
  case (1 n)
  show ?case
  proof (cases "n < 10")
    case True
    have oc: "(of_char (char_of (48 + n)) :: nat) = 48 + n"
      using True by (simp add: of_char_of)
    have "char_of (48 + n) \<noteq> CHR ''-''"
    proof
      assume e: "char_of (48 + n) = CHR ''-''"
      have "48 + n = (of_char (char_of (48 + n)) :: nat)" using oc by (simp only:)
      also have "\<dots> = of_char CHR ''-''" by (simp only: e)
      also have "\<dots> = 45" by simp
      finally show False by simp
    qed
    from this show ?thesis using True by (subst digits.simps) simp
  next
    case False
    then show ?thesis using 1 digits_nonempty[of "n div 10"]
      by (subst digits.simps) simp
  qed
qed


lemma str_inj: "str a = str b \<Longrightarrow> a = b"
proof -
  assume eq: "str a = str b"
  have neg: "str i = CHR ''-'' # digits (nat (- i))" if "i < 0" for i
    using that by (simp add: str_def)
  have pos: "str i = digits (nat i)" if "0 \<le> i" for i
    using that by (simp add: str_def)
  have hdneg: "hd (str i) = CHR ''-''" if "i < 0" for i using neg[OF that] by simp
  have hdpos: "hd (str i) \<noteq> CHR ''-''" if "0 \<le> i" for i using pos[OF that] hd_digits by simp
  show "a = b"
  proof (cases "a < 0")
    case True
    then have b: "b < 0" using eq hdneg[OF True] hdpos[of b] by (cases "0 \<le> b") auto
    have "digits (nat (- a)) = digits (nat (- b))" using eq neg[OF True] neg[OF b] by simp
    then have "nat (- a) = nat (- b)" using decode_digits by metis
    then show ?thesis using True b by simp
  next
    case False
    then have a: "0 \<le> a" by simp
    have b: "0 \<le> b"
    proof (rule ccontr)
      assume "\<not> 0 \<le> b"
      then have "b < 0" by simp
      then show False using eq hdneg[of b] hdpos[OF a] by simp
    qed
    have "digits (nat a) = digits (nat b)" using eq pos[OF a] pos[OF b] by simp
    then have "nat a = nat b" using decode_digits by metis
    then show ?thesis using a b by simp
  qed
qed

section \<open>Errors of the rasterizer\<close>

text \<open>Both loops stop at the first character the rasterizer rejects and return its
  error unchanged.\<close>

lemma chr_valid: "0 \<le> cp \<Longrightarrow> cp < 0x110000 \<Longrightarrow> chr cp = Inr cp"
  by (simp add: chr_def)

lemma measure_loop_first_error:
  assumes "\<forall>c\<in>set cps. 0 \<le> c \<and> c < 0x110000"
    and "find (\<lambda>c. isl (render F c)) cps = Some cp"
    and "render F cp = Inl e"
  shows "measure_loop F cps acc = Inl e"
  using assms
proof (induction cps arbitrary: acc)
  case Nil
  then show ?case by simp
next
  case (Cons c cps)
  obtain mw ma mb where acc: "acc = (mw, ma, mb)" by (cases acc)
  have c: "chr c = Inr c" using Cons.prems(1) by (simp add: chr_valid)
  show ?case
  proof (cases "isl (render F c)")
    case True
    then have "cp = c" using Cons.prems(2) by simp
    then show ?thesis using Cons.prems(3) by (simp add: acc c textbbox_def)
  next
    case False
    then obtain g where g: "render F c = Inr g" by (cases "render F c") simp_all
    obtain x0 y0 x1 y1 where bb: "bbox g = (x0, y0, x1, y1)" by (cases "bbox g")
    have "find (\<lambda>c. isl (render F c)) cps = Some cp" using Cons.prems(2) False by simp
    then have "measure_loop F cps acc' = Inl e" for acc'
      using Cons.IH Cons.prems(1,3) by simp
    then show ?thesis by (simp add: acc c textbbox_def g bb)
  qed
qed

lemma atlas_loop_first_error:
  assumes "\<forall>c\<in>set (map snd ics). 0 \<le> c \<and> c < 0x110000"
    and "find (\<lambda>c. isl (render F c)) (map snd ics) = Some cp"
    and "render F cp = Inl e"
  shows "atlas_loop F gw gh bo C ics st = Inl e"
  using assms
proof (induction ics arbitrary: st)
  case Nil
  then show ?case by simp
next
  case (Cons ic ics)
  obtain i c where ic: "ic = (i, c)" by (cases ic)
  obtain a md where st: "st = (a, md)" by (cases st)
  have c: "chr c = Inr c" using Cons.prems(1) by (simp add: chr_valid ic)
  show ?case
  proof (cases "isl (render F c)")
    case True
    then have "cp = c" using Cons.prems(2) by (simp add: ic)
    then show ?thesis using Cons.prems(3) by (simp add: ic st c textbbox_def)
  next
    case False
    then obtain g where g: "render F c = Inr g" by (cases "render F c") simp_all
    obtain x0 y0 x1 y1 where bb: "bbox g = (x0, y0, x1, y1)" by (cases "bbox g")
    have "find (\<lambda>c. isl (render F c)) (map snd ics) = Some cp"
      using Cons.prems(2) False by (simp add: ic)
    then have "atlas_loop F gw gh bo C ics st' = Inl e" for st'
      using Cons.IH Cons.prems(1,3) by simp
    then show ?thesis by (simp add: ic st c textbbox_def g bb draw_text_def Let_def)
  qed
qed

lemma map_snd_enumerate: "map snd (enumerate n xs) = xs"
  by (induction xs arbitrary: n) simp_all

lemma create_atlas_first_error:
  assumes "\<forall>c\<in>set cps. 0 \<le> c \<and> c < 0x110000"
    and "find (\<lambda>c. isl (render F c)) cps = Some cp"
    and "render F cp = Inl e"
    and "columns \<noteq> 0" and "0 \<le> columns * gw"
    and "0 \<le> (int (length cps) + columns - 1) div columns * gh"
  shows "create_atlas F cps gw gh bo columns = Inl e"
proof -
  have "atlas_loop F gw gh bo columns (enumerate 0 cps) st = Inl e" for st
    by (rule atlas_loop_first_error) (use assms in \<open>simp_all add: map_snd_enumerate\<close>)
  then show ?thesis
    using assms(4-6) by (simp add: create_atlas_def Let_def image_new_def)
qed

text \<open>
  Claim C7, as stated, has \<open>measure_font\<close> and \<open>create_atlas\<close> fail with an
  \<open>UnsupportedGlyph\<close> error that identifies the code point. Neither function raises or
  wraps anything: with a rasterizer that rejects code point 66 by an \<open>OSError\<close>, both fail
  with that \<open>OSError\<close>, which names no code point.
\<close>

theorem unsupported_glyph_counterexample:
  "measure_font broken_font [65, 66, 67] = Inl OSError \<and>
   create_atlas broken_font [65, 66, 67] 8 8 6 16 = Inl OSError"
  by (simp add: measure_font_def create_atlas_def Let_def image_new_def chr_def textbbox_def
      draw_text_def broken_font_def sample_glyph_def enumerate_eq_zip)

text \<open>
  Claim C7, amended. If the rasterizer raises an error on some requested code point, then
  \<open>measure_font\<close> fails with that same error, for the first such code point in input order,
  instead of returning maxima; and so does \<open>create_atlas\<close> once its grid has been set up
  (a non-zero column count and a non-negative image size). The error is the rasterizer's
  own: it identifies the code point exactly when the rasterizer's error does. The code
  points are valid Unicode scalar indices.
\<close>

theorem rasterizer_error_propagates:
  assumes "\<forall>c\<in>set codepoints. 0 \<le> c \<and> c < 0x110000"
    and "find (\<lambda>c. isl (render F c)) codepoints = Some cp"
    and "render F cp = Inl e"
  shows "measure_font F codepoints = Inl e \<and>
         (columns \<noteq> 0 \<and> 0 \<le> columns * glyph_w \<and>
          0 \<le> (int (length codepoints) + columns - 1) div columns * glyph_h \<longrightarrow>
            create_atlas F codepoints glyph_w glyph_h baseline columns = Inl e)"
  using measure_loop_first_error[OF assms] create_atlas_first_error[OF assms]
  by (simp add: measure_font_def)

theorem rasterizer_error_propagates_witness:
  "(0::int) \<le> 65 \<and> (67::int) < 0x110000 \<and>
   find (\<lambda>c. isl (render gappy_font c)) [65, 66, 67] = Some 66 \<and>
   render gappy_font 66 = Inl (UnsupportedGlyph 66) \<and>
   measure_font gappy_font [65, 66, 67] = Inl (UnsupportedGlyph 66) \<and>
   (16::int) \<noteq> 0 \<and> (0::int) \<le> 16 * 8 \<and>
   (0::int) \<le> (int (length [65, 66, 67 :: int]) + 16 - 1) div 16 * 8 \<and>
   create_atlas gappy_font [65, 66, 67] 8 8 6 16 = Inl (UnsupportedGlyph 66)"
  using rasterizer_error_propagates[of "[65, 66, 67]" gappy_font 66 "UnsupportedGlyph 66" 16 8 8 6]
  by (simp add: gappy_font_def)

section \<open>Atlas rasterization\<close>

subsection \<open>Drawing leaves other pixels alone\<close>

lemma draw_pixel_size:
  "width (draw_pixel F xy p img) = width img \<and> height (draw_pixel F xy p img) = height img"
  by (cases xy; cases p; cases "fst p") auto

lemma fold_draw_size:
  "width (fold (draw_pixel F xy) ps img) = width img \<and>
   height (fold (draw_pixel F xy) ps img) = height img"
  by (induction ps arbitrary: img) (simp_all add: draw_pixel_size)

lemma draw_pixel_other:
  "(int x, int y) \<noteq> (px + dx, py + dy) \<Longrightarrow>
   pixels (draw_pixel F (px, py) ((dx, dy), m) img) (x, y) = pixels img (x, y)"
  by auto

lemma fold_draw_other:
  "\<forall>((dx, dy), m)\<in>set ps. (int x, int y) \<noteq> (px + dx, py + dy) \<Longrightarrow>
   pixels (fold (draw_pixel F (px, py)) ps img) (x, y) = pixels img (x, y)"
proof (induction ps arbitrary: img)
  case Nil
  then show ?case by simp
next
  case (Cons p ps)
  obtain dx dy m where p: "p = ((dx, dy), m)" by (cases p; cases "fst p") auto
  have "pixels (fold (draw_pixel F (px, py)) ps (draw_pixel F (px, py) p img)) (x, y)
        = pixels (draw_pixel F (px, py) p img) (x, y)"
    using Cons.prems by (intro Cons.IH) simp
  also have "\<dots> = pixels img (x, y)"
    unfolding p using Cons.prems by (intro draw_pixel_other) (simp add: p)
  finally show ?case by simp
qed

lemma atlas_loop_step:
  assumes "atlas_loop F gw gh bo C ((i, cp) # rest) (a, md) = Inr r"
  obtains g x0 y0 x1 y1 where "render F cp = Inr g" and "bbox g = (x0, y0, x1, y1)"
    and "atlas_loop F gw gh bo C rest
           (fold (draw_pixel F (int i mod C * gw + - x0, int i div C * gh + bo)) (ink g) a,
            md(str cp \<mapsto> (int i div C, int i mod C))) = Inr r"
  using assms
  by (auto simp: Let_def chr_def textbbox_def draw_text_def split: sum.splits if_splits prod.splits)

lemma atlas_loop_size:
  "atlas_loop F gw gh bo C ics (a, md) = Inr (a', md') \<Longrightarrow>
   width a' = width a \<and> height a' = height a"
proof (induction ics arbitrary: a md)
  case Nil
  then show ?case by simp
next
  case (Cons ic ics)
  obtain i cp where ic: "ic = (i, cp)" by (cases ic)
  from Cons.prems[unfolded ic] show ?case
  proof (rule atlas_loop_step)
    fix g x0 y0 x1 y1
    assume "atlas_loop F gw gh bo C ics
           (fold (draw_pixel F (int i mod C * gw + - x0, int i div C * gh + bo)) (ink g) a,
            md(str cp \<mapsto> (int i div C, int i mod C))) = Inr (a', md')"
    from Cons.IH[OF this] show ?thesis by (simp add: fold_draw_size)
  qed
qed

lemma atlas_loop_other_keys:
  "atlas_loop F gw gh bo C ics (a, md) = Inr (a', md') \<Longrightarrow>
   k \<notin> str ` snd ` set ics \<Longrightarrow> md' k = md k"
proof (induction ics arbitrary: a md)
  case Nil
  then show ?case by simp
next
  case (Cons ic ics)
  obtain i cp where ic: "ic = (i, cp)" by (cases ic)
  from Cons.prems(1)[unfolded ic] show ?case
  proof (rule atlas_loop_step)
    fix g x0 y0 x1 y1
    assume "atlas_loop F gw gh bo C ics
           (fold (draw_pixel F (int i mod C * gw + - x0, int i div C * gh + bo)) (ink g) a,
            md(str cp \<mapsto> (int i div C, int i mod C))) = Inr (a', md')"
    from Cons.IH[OF this] Cons.prems(2) show ?thesis by (simp add: ic)
  qed
qed

lemma atlas_loop_key:
  "atlas_loop F gw gh bo C ics (a, md) = Inr (a', md') \<Longrightarrow>
   ics = pre @ (i, cp) # post \<Longrightarrow> cp \<notin> snd ` set post \<Longrightarrow>
   md' (str cp) = Some (int i div C, int i mod C)"
proof (induction pre arbitrary: ics a md)
  case Nil
  from Nil(1)[unfolded Nil(2) append_Nil] show ?case
  proof (rule atlas_loop_step)
    fix g x0 y0 x1 y1
    assume "atlas_loop F gw gh bo C post
           (fold (draw_pixel F (int i mod C * gw + - x0, int i div C * gh + bo)) (ink g) a,
            md(str cp \<mapsto> (int i div C, int i mod C))) = Inr (a', md')"
    moreover have "str cp \<notin> str ` snd ` set post"
      using Nil(3) str_inj by auto
    ultimately show ?thesis using atlas_loop_other_keys by fastforce
  qed
next
  case (Cons p pre)
  obtain j c where p: "p = (j, c)" by (cases p)
  from Cons.prems(1)[unfolded Cons.prems(2) p append_Cons] show ?case
  proof (rule atlas_loop_step)
    fix g x0 y0 x1 y1
    assume "atlas_loop F gw gh bo C (pre @ (i, cp) # post)
           (fold (draw_pixel F (int j mod C * gw + - x0, int j div C * gh + bo)) (ink g) a,
            md(str c \<mapsto> (int j div C, int j mod C))) = Inr (a', md')"
    from Cons.IH[OF this refl Cons.prems(3)] show ?thesis .
  qed
qed


lemma cell_div: "0 \<le> r \<Longrightarrow> r < w \<Longrightarrow> (c * w + r) div w = (c::int)"
  by (cases "w = 0") (simp_all add: div_pos_pos_trivial)

lemma glyph_ink_in_cell:
  assumes "glyph_fits F gw gh bo cp" and "render F cp = Inr g" and "bbox g = (x0, y0, x1, y1)"
    and "((dx, dy), m) \<in> set (ink g)"
  shows "(col * gw + - x0 + dx) div gw = col \<and> (row * gh + bo + dy) div gh = row"
proof -
  have "0 \<le> dx - x0 \<and> dx - x0 < gw \<and> 0 \<le> bo + dy \<and> bo + dy < gh"
    using assms by (auto simp: glyph_fits_def list_all_iff)
  then have "(col * gw + (dx - x0)) div gw = col" "(row * gh + (bo + dy)) div gh = row"
    by (simp_all add: cell_div)
  then show ?thesis by (simp add: algebra_simps)
qed

lemma atlas_loop_untouched:
  "atlas_loop F gw gh bo C ics (a, md) = Inr (a', md') \<Longrightarrow>
   \<forall>(i, cp)\<in>set ics. glyph_fits F gw gh bo cp \<and>
       (int i div C, int i mod C) \<noteq> (int y div gh, int x div gw) \<Longrightarrow>
   pixels a' (x, y) = pixels a (x, y)"
proof (induction ics arbitrary: a md)
  case Nil
  then show ?case by simp
next
  case (Cons ic ics)
  obtain i cp where ic: "ic = (i, cp)" by (cases ic)
  have fits: "glyph_fits F gw gh bo cp"
    and other: "(int i div C, int i mod C) \<noteq> (int y div gh, int x div gw)"
    using Cons.prems(2) by (simp_all add: ic)
  from Cons.prems(1)[unfolded ic] show ?case
  proof (rule atlas_loop_step)
    fix g :: glyph and x0 y0 x1 y1 :: int
    let ?a = "fold (draw_pixel F (int i mod C * gw + - x0, int i div C * gh + bo)) (ink g) a"
    assume g: "render F cp = Inr g" and bb: "bbox g = (x0, y0, x1, y1)"
      and rest: "atlas_loop F gw gh bo C ics (?a, md(str cp \<mapsto> (int i div C, int i mod C)))
                 = Inr (a', md')"
    have "pixels a' (x, y) = pixels ?a (x, y)"
      using Cons.IH[OF rest] Cons.prems(2) by simp
    also have "\<dots> = pixels a (x, y)"
    proof (rule fold_draw_other, clarify)
      fix dx dy m
      assume mem: "((dx, dy), m) \<in> set (ink g)"
        and x: "int x = int i mod C * gw + - x0 + dx"
        and y: "int y = int i div C * gh + bo + dy"
      have "int x div gw = int i mod C \<and> int y div gh = int i div C"
        unfolding x y by (rule glyph_ink_in_cell[OF fits g bb mem])
      then show False using other by simp
    qed
    finally show ?thesis .
  qed
qed

lemma rows_ceiling:
  assumes "0 < (C::int)"
  shows "(n + C - 1) div C = \<lceil>real_of_int n / real_of_int C\<rceil>"
proof -
  define q where "q = (- n) div C"
  define r where "r = (- n) mod C"
  have r: "0 \<le> r" "r < C" using assms by (simp_all add: r_def)
  have "- n = C * q + r" by (simp add: q_def r_def)
  then have "n + C - 1 = C * (- q) + (C - 1 - r)" by (simp add: algebra_simps)
  then have "(n + C - 1) div C = - q"
    by (rule int_div_pos_eq) (use r in simp_all)
  then show ?thesis by (simp add: ceiling_divide_eq_div q_def)
qed

subsection \<open>The grid of a returned atlas\<close>

lemma create_atlas_Inr:
  assumes "create_atlas F cps gw gh bo C = Inr (atlas, md)"
  shows "C \<noteq> 0" and "0 \<le> C * gw" and "0 \<le> (int (length cps) + C - 1) div C * gh"
    and "atlas_loop F gw gh bo C (enumerate 0 cps)
           (blank (nat (C * gw)) (nat ((int (length cps) + C - 1) div C * gh)) 0, Map.empty)
         = Inr (atlas, md)"
  using assms
  by (auto simp: create_atlas_def Let_def image_new_def split: if_splits sum.splits)

lemma create_atlas_size:
  assumes "create_atlas F cps gw gh bo C = Inr (atlas, md)"
  shows "int (width atlas) = C * gw"
    and "int (height atlas) = (int (length cps) + C - 1) div C * gh"
  using atlas_loop_size[OF create_atlas_Inr(4)[OF assms]] create_atlas_Inr(2,3)[OF assms]
  by simp_all

lemma enumerate_split:
  assumes "i < length cps"
  shows "enumerate 0 cps =
     enumerate 0 (take i cps) @ (i, cps ! i) # enumerate (Suc i) (drop (Suc i) cps)"
proof -
  have "enumerate 0 cps = enumerate 0 (take i cps @ cps ! i # drop (Suc i) cps)"
    by (simp only: id_take_nth_drop[OF assms, symmetric])
  also have "\<dots> = enumerate 0 (take i cps) @ enumerate i (cps ! i # drop (Suc i) cps)"
    using assms by (simp add: enumerate_append_eq min_def)
  finally show ?thesis by simp
qed

lemma create_atlas_last_occurrence:
  assumes ok: "create_atlas F cps gw gh bo C = Inr (atlas, md)"
    and i: "i < length cps" and last: "\<forall>j<length cps. i < j \<longrightarrow> cps ! j \<noteq> cps ! i"
  shows "md (str (cps ! i)) = Some (int i div C, int i mod C)"
proof (rule atlas_loop_key[OF create_atlas_Inr(4)[OF ok] enumerate_split[OF i]])
  have "snd ` set (enumerate (Suc i) (drop (Suc i) cps)) = set (drop (Suc i) cps)"
    by (simp only: set_map[symmetric] map_snd_enumerate)
  moreover have "cps ! i \<notin> set (drop (Suc i) cps)"
  proof
    assume "cps ! i \<in> set (drop (Suc i) cps)"
    then obtain k where "k < length cps - Suc i" "drop (Suc i) cps ! k = cps ! i"
      by (auto simp: in_set_conv_nth)
    then have "Suc i + k < length cps" "cps ! (Suc i + k) = cps ! i" by simp_all
    then show False using last by auto
  qed
  ultimately show "cps ! i \<notin> snd ` set (enumerate (Suc i) (drop (Suc i) cps))" by simp
qed

lemma cell_inj: "(int i div C, int i mod C) = (int j div C, int j mod C) \<Longrightarrow> i = j"
proof -
  assume a: "(int i div C, int i mod C) = (int j div C, int j mod C)"
  have "int i = int i div C * C + int i mod C" by (rule div_mult_mod_eq[symmetric])
  also have "\<dots> = int j div C * C + int j mod C" using a by (simp only: prod.inject)
  also have "\<dots> = int j" by (rule div_mult_mod_eq)
  finally show "i = j" by (simp only: of_nat_eq_iff)
qed

lemma last_occurrence:
  assumes "i < length (cps :: 'a list)"
  obtains l where "l < length cps" and "cps ! l = cps ! i"
    and "\<forall>j<length cps. l < j \<longrightarrow> cps ! j \<noteq> cps ! l"
proof -
  let ?S = "{j. j < length cps \<and> cps ! j = cps ! i}"
  have fin: "finite ?S" by simp
  have ne: "?S \<noteq> {}" using assms by auto
  have m: "Max ?S \<in> ?S" using Max_in[OF fin ne] .
  have "\<forall>j<length cps. Max ?S < j \<longrightarrow> cps ! j \<noteq> cps ! (Max ?S)"
  proof (intro allI impI notI)
    fix j assume "j < length cps" "Max ?S < j" "cps ! j = cps ! (Max ?S)"
    then have "j \<in> ?S" using m by simp
    then have "j \<le> Max ?S" using Max_ge[OF fin] by blast
    then show False using \<open>Max ?S < j\<close> by simp
  qed
  then show ?thesis using that m by blast
qed

lemma create_atlas_same_cell:
  assumes ok: "create_atlas F cps gw gh bo C = Inr (atlas, md)"
    and i: "i < length cps" and j: "j < length cps"
    and eq: "md (str (cps ! i)) = md (str (cps ! j))"
  shows "cps ! i = cps ! j"
proof -
  obtain li where li: "li < length cps" "cps ! li = cps ! i"
    "\<forall>k<length cps. li < k \<longrightarrow> cps ! k \<noteq> cps ! li"
    using last_occurrence[OF i] by blast
  obtain lj where lj: "lj < length cps" "cps ! lj = cps ! j"
    "\<forall>k<length cps. lj < k \<longrightarrow> cps ! k \<noteq> cps ! lj"
    using last_occurrence[OF j] by blast
  have "md (str (cps ! i)) = Some (int li div C, int li mod C)"
    using create_atlas_last_occurrence[OF ok li(1,3)] li(2) by simp
  moreover have "md (str (cps ! j)) = Some (int lj div C, int lj mod C)"
    using create_atlas_last_occurrence[OF ok lj(1,3)] lj(2) by simp
  ultimately have "(int li div C, int li mod C) = (int lj div C, int lj mod C)"
    using eq by simp
  then have "li = lj" by (rule cell_inj)
  then show ?thesis using li(2) lj(2) by simp
qed

lemma create_atlas_trailing:
  assumes ok: "create_atlas F cps gw gh bo C = Inr (atlas, md)"
    and fits: "\<forall>cp\<in>set cps. glyph_fits F gw gh bo cp"
    and k: "int (length cps) \<le> int y div gh * C + int x div gw"
  shows "pixels atlas (x, y) = 0"
proof -
  have "pixels atlas (x, y) =
        pixels (blank (nat (C * gw)) (nat ((int (length cps) + C - 1) div C * gh)) (0 :: 8 word)) (x, y)"
  proof (rule atlas_loop_untouched[OF create_atlas_Inr(4)[OF ok]], clarify, intro conjI)
    fix i cp assume mem: "(i, cp) \<in> set (enumerate 0 cps)"
    then have i: "i < length cps" and cp: "cps ! i = cp" by (simp_all add: in_set_enumerate_eq)
    show "glyph_fits F gw gh bo cp" using fits i cp by auto
    show "(int i div C, int i mod C) \<noteq> (int y div gh, int x div gw)"
    proof
      assume "(int i div C, int i mod C) = (int y div gh, int x div gw)"
      then have "int y div gh * C + int x div gw = int i div C * C + int i mod C"
        by (simp only: prod.inject)
      also have "\<dots> = int i" by (rule div_mult_mod_eq)
      finally show False using k i by simp
    qed
  qed
  then show ?thesis by simp
qed

text \<open>
  Claim C2, as stated, fails in three ways. With a repeated code point the index holds
  the cell of the last occurrence, not of position 0. A glyph wider than its cell inks
  the unfilled cell to its right. A column count of 0 returns no atlas at all.
\<close>

theorem create_atlas_grid_counterexample:
  "\<not> isl (create_atlas sample_font [65, 65] 1 1 0 16) \<and>
   snd (projr (create_atlas sample_font [65, 65] 1 1 0 16)) ''65'' = Some (0, 1) \<and>
   \<not> isl (create_atlas wide_font [65] 1 1 0 2) \<and>
   pixels (fst (projr (create_atlas wide_font [65] 1 1 0 2))) (1, 0) = 255 \<and>
   create_atlas sample_font [65] 1 1 0 0 = Inl ZeroDivisionError"
proof -
  have k: "str 65 = ''65''" by code_simp
  have a: "\<not> isl (create_atlas sample_font [65, 65] 1 1 0 16) \<and>
     snd (projr (create_atlas sample_font [65, 65] 1 1 0 16)) (str 65) = Some (0, 1)"
    by (simp add: create_atlas_def Let_def image_new_def chr_def textbbox_def draw_text_def
      sample_font_def sample_glyph_def enumerate_eq_zip)
  have b: "\<not> isl (create_atlas wide_font [65] 1 1 0 2) \<and>
     pixels (fst (projr (create_atlas wide_font [65] 1 1 0 2))) (1, 0) = 255"
    by (simp add: create_atlas_def Let_def image_new_def chr_def textbbox_def draw_text_def
      wide_font_def enumerate_eq_zip)
  have c: "create_atlas sample_font [65] 1 1 0 0 = Inl ZeroDivisionError"
    by (simp add: create_atlas_def)
  show ?thesis using a b c unfolding k by simp
qed

text \<open>
  Claim C2, amended. For a positive column count \<open>C\<close> and every atlas that
  \<open>create_atlas\<close> returns for \<open>N\<close> code points: the image is \<open>C * glyph_w\<close> wide and
  \<open>ceil(N / C) * glyph_h\<close> high; the index maps the code point at position \<open>i\<close> to
  \<open>(i div C, i mod C)\<close> whenever that code point does not occur again later; two positions
  have the same cell in the index only if they hold the same code point; and, provided
  every glyph's ink fits its cell, every pixel of a cell whose raster index is at least
  \<open>N\<close> is zero.
\<close>

theorem create_atlas_grid:
  assumes "create_atlas F codepoints glyph_w glyph_h baseline columns = Inr (atlas, metadata)"
    and "0 < columns"
  shows "int (width atlas) = columns * glyph_w \<and>
     int (height atlas) = \<lceil>real (length codepoints) / real_of_int columns\<rceil> * glyph_h \<and>
     (\<forall>i<length codepoints.
        (\<forall>j<length codepoints. i < j \<longrightarrow> codepoints ! j \<noteq> codepoints ! i) \<longrightarrow>
        metadata (str (codepoints ! i)) = Some (int i div columns, int i mod columns)) \<and>
     (\<forall>i<length codepoints. \<forall>j<length codepoints.
        metadata (str (codepoints ! i)) = metadata (str (codepoints ! j)) \<longrightarrow>
        codepoints ! i = codepoints ! j) \<and>
     ((\<forall>cp\<in>set codepoints. glyph_fits F glyph_w glyph_h baseline cp) \<longrightarrow>
      (\<forall>x<width atlas. \<forall>y<height atlas.
         int (length codepoints) \<le> int y div glyph_h * columns + int x div glyph_w \<longrightarrow>
         pixels atlas (x, y) = 0))"
proof -
  have h: "int (height atlas) = \<lceil>real (length codepoints) / real_of_int columns\<rceil> * glyph_h"
    using create_atlas_size(2)[OF assms(1)] rows_ceiling[OF assms(2), of "int (length codepoints)"]
    by simp
  show ?thesis
    using create_atlas_size(1)[OF assms(1)] h
      create_atlas_last_occurrence[OF assms(1)]
      create_atlas_same_cell[OF assms(1)]
      create_atlas_trailing[OF assms(1)]
    by blast
qed

theorem create_atlas_grid_witness:
  "create_atlas sample_font [65, 66] 1 1 0 16 =
     Inr (fst (projr (create_atlas sample_font [65, 66] 1 1 0 16)),
          snd (projr (create_atlas sample_font [65, 66] 1 1 0 16))) \<and>
   (0::int) < 16 \<and>
   width (fst (projr (create_atlas sample_font [65, 66] 1 1 0 16))) = 16 \<and>
   height (fst (projr (create_atlas sample_font [65, 66] 1 1 0 16))) = 1 \<and>
   snd (projr (create_atlas sample_font [65, 66] 1 1 0 16)) (str 65) = Some (0, 0) \<and>
   snd (projr (create_atlas sample_font [65, 66] 1 1 0 16)) (str 66) = Some (0, 1) \<and>
   glyph_fits sample_font 1 1 0 65 \<and> glyph_fits sample_font 1 1 0 66 \<and>
   pixels (fst (projr (create_atlas sample_font [65, 66] 1 1 0 16))) (2, 0) = 0"
proof -
  let ?r = "create_atlas sample_font [65, 66] 1 1 0 16"
  have "\<not> isl ?r"
    by (simp add: create_atlas_def Let_def image_new_def chr_def textbbox_def draw_text_def
        sample_font_def sample_glyph_def enumerate_eq_zip)
  then have ok: "?r = Inr (fst (projr ?r), snd (projr ?r))" by (cases ?r) simp_all
  have fits: "\<forall>cp\<in>set [65, 66]. glyph_fits sample_font 1 1 0 cp"
    by (simp add: glyph_fits_def sample_font_def sample_glyph_def)
  have pos: "(0::int) < 16" by simp
  note g = create_atlas_grid[OF ok pos]
  have c: "\<lceil>real (length [65, 66 :: int]) / real_of_int 16\<rceil> = 1"
    by (simp add: ceiling_eq_iff)
  have w: "width (fst (projr ?r)) = 16"
    using g[THEN conjunct1] by simp
  have h: "height (fst (projr ?r)) = 1"
    using g[THEN conjunct2, THEN conjunct1] unfolding c by simp
  have k0: "snd (projr ?r) (str 65) = Some (0, 0)"
    using g[THEN conjunct2, THEN conjunct2, THEN conjunct1, rule_format, of 0]
    by (simp add: less_Suc_eq)
  have k1: "snd (projr ?r) (str 66) = Some (0, 1)"
    using g[THEN conjunct2, THEN conjunct2, THEN conjunct1, rule_format, of 1]
    by simp
  have p: "pixels (fst (projr ?r)) (2, 0) = 0"
    using g[THEN conjunct2, THEN conjunct2, THEN conjunct2, THEN conjunct2, rule_format, of 2 0]
      fits w h
    by simp
  show ?thesis using ok fits w h k0 k1 p by simp
qed

section \<open>The generation run\<close>







end
